theory Spec2Isabelle
  imports Complex_Main
begin

section \<open>Values stored in the page array\<close>

text \<open>
  \<^verbatim>\<open>calculatePages\<close> returns a JavaScript array. Its elements are page numbers, the
  string \<^verbatim>\<open>"..."\<close>, and, on degenerate inputs, what JavaScript arithmetic makes of a
  missing element or of a string: \<^verbatim>\<open>undefined - 1\<close> is \<^verbatim>\<open>NaN\<close> and \<^verbatim>\<open>"..." + 1\<close> is the
  string \<^verbatim>\<open>"...1"\<close>. Page numbers are modelled as unbounded integers (the doubles of
  the source are exact on integers below \<open>2^53\<close>).
\<close>

datatype jsval = Num int | NaN | Str string | Undefined

definition ellipsis :: jsval where
  "ellipsis = Str ''...''"

text \<open>\<^verbatim>\<open>typeof v === "number"\<close>: \<^verbatim>\<open>NaN\<close> is a number too.\<close>

fun typeof_number :: "jsval \<Rightarrow> bool" where
  "typeof_number (Num n) = True"
| "typeof_number NaN = True"
| "typeof_number (Str s) = False"
| "typeof_number Undefined = False"

text \<open>
  \<^verbatim>\<open>v - 1\<close>. The operand is converted to a number; the only strings this program ever
  stores are \<^verbatim>\<open>"..."\<close> and \<^verbatim>\<open>"...1"\<close>, which convert to \<^verbatim>\<open>NaN\<close>, as \<^verbatim>\<open>undefined\<close> does.
\<close>

fun minus_one :: "jsval \<Rightarrow> jsval" where
  "minus_one (Num n) = Num (n - 1)"
| "minus_one NaN = NaN"
| "minus_one (Str s) = NaN"
| "minus_one Undefined = NaN"

text \<open>\<^verbatim>\<open>v + 1\<close>: addition on numbers, concatenation on a string.\<close>

fun plus_one :: "jsval \<Rightarrow> jsval" where
  "plus_one (Num n) = Num (n + 1)"
| "plus_one NaN = NaN"
| "plus_one (Str s) = Str (s @ ''1'')"
| "plus_one Undefined = NaN"

text \<open>
  \<^verbatim>\<open>pages[i]\<close>: an index outside the array reads \<^verbatim>\<open>undefined\<close>.
\<close>

definition arr_get :: "jsval list \<Rightarrow> int \<Rightarrow> jsval" where
  "arr_get pages i =
     (if 0 \<le> i \<and> i < int (length pages) then pages ! nat i else Undefined)"

text \<open>
  \<^verbatim>\<open>pages[i] = v\<close>: inside the array the element is overwritten; at or beyond the end
  the array is extended (the gap reads \<^verbatim>\<open>undefined\<close>); a negative index sets a property
  named \<^verbatim>\<open>"-1"\<close> on the array object and leaves its elements and its length as they are.
\<close>

definition arr_set :: "jsval list \<Rightarrow> int \<Rightarrow> jsval \<Rightarrow> jsval list" where
  "arr_set pages i v =
     (if i < 0 then pages
      else if i < int (length pages) then pages[nat i := v]
      else pages @ replicate (nat i - length pages) Undefined @ [v])"

section \<open>Options and state of \<^verbatim>\<open>usePagination\<close>\<close>

record ellipsisOptions =
  opt_enableEllipsis :: "bool option"
  opt_ellipsisCountsAsPage :: "bool option"
  opt_showEllipsisIfOnlyOnePage :: "bool option"
  opt_enableEllipsisClick :: "bool option"
  opt_enableFirstLast :: "bool option"

record paginationOptions =
  opt_totalPages :: int
  opt_maxPagesShown :: "int option"
  opt_ellipsisOptions :: "ellipsisOptions option"

text \<open>The closure variables of \<^verbatim>\<open>usePagination\<close>.\<close>

record pagination =
  totalPages :: int
  lastPage :: int
  maxPagesShown :: int
  middleIndex :: int
  enableEllipsis :: bool
  ellipsisCountsAsPage :: bool
  showEllipsisIfOnlyOnePage :: bool
  enableEllipsisClick :: bool
  enableFirstLast :: bool

text \<open>\<^verbatim>\<open>paginationOptions?.ellipsisOptions?.field ?? true\<close>\<close>

definition ellipsisOption ::
  "paginationOptions \<Rightarrow> (ellipsisOptions \<Rightarrow> bool option) \<Rightarrow> bool" where
  "ellipsisOption paginationOptions field =
     (case opt_ellipsisOptions paginationOptions of
        None \<Rightarrow> True
      | Some e \<Rightarrow> (case field e of None \<Rightarrow> True | Some b \<Rightarrow> b))"

definition usePagination :: "paginationOptions \<Rightarrow> pagination" where
  "usePagination paginationOptions =
     (let pageCount = max (opt_totalPages paginationOptions) 1;
          shown = (case opt_maxPagesShown paginationOptions of None \<Rightarrow> 7 | Some m \<Rightarrow> m)
      in \<lparr> totalPages = pageCount,
           lastPage = pageCount - 1,
           maxPagesShown = shown,
           middleIndex = shown div 2,
           enableEllipsis = ellipsisOption paginationOptions opt_enableEllipsis,
           ellipsisCountsAsPage = ellipsisOption paginationOptions opt_ellipsisCountsAsPage,
           showEllipsisIfOnlyOnePage =
             ellipsisOption paginationOptions opt_showEllipsisIfOnlyOnePage,
           enableEllipsisClick = ellipsisOption paginationOptions opt_enableEllipsisClick,
           enableFirstLast = ellipsisOption paginationOptions opt_enableFirstLast \<rparr>)"

definition updateTotalPages :: "int \<Rightarrow> pagination \<Rightarrow> pagination" where
  "updateTotalPages newTotalPages s =
     (let pageCount = max newTotalPages 1
      in s\<lparr> totalPages := pageCount, lastPage := pageCount - 1 \<rparr>)"

text \<open>
  What construction establishes and every \<^verbatim>\<open>updateTotalPages\<close> keeps: the state of a
  paginator that exists.
\<close>

definition reachable :: "pagination \<Rightarrow> bool" where
  "reachable s =
     (1 \<le> totalPages s \<and> lastPage s = totalPages s - 1 \<and>
      middleIndex s = maxPagesShown s div 2)"

section \<open>\<^verbatim>\<open>calculatePages\<close>\<close>

text \<open>
  The first \<^verbatim>\<open>if\<close> chain: the numbers the array starts with.
  \<^verbatim>\<open>Array.from({length: n}, f)\<close> has no element when \<open>n\<close> is negative.
\<close>

definition basePages :: "pagination \<Rightarrow> int \<Rightarrow> int list" where
  "basePages s currentPage =
     (let len = nat (min (maxPagesShown s) (totalPages s))
      in if currentPage < middleIndex s then
           map (\<lambda>i. int i) [0..<len]
         else if currentPage > lastPage s - middleIndex s then
           sort (map (\<lambda>i. lastPage s - int i) [0..<len])
         else
           map (\<lambda>i. currentPage - middleIndex s + int i) [0..<len])"

text \<open>
  Shorthands for the length the three branches share and for the first page each of them
  starts from (the second one after its sort).
\<close>

abbreviation windowLen :: "pagination \<Rightarrow> nat" where
  "windowLen s \<equiv> nat (min (maxPagesShown s) (totalPages s))"

abbreviation windowStart :: "pagination \<Rightarrow> int \<Rightarrow> int" where
  "windowStart s c \<equiv>
     (if c < middleIndex s then 0
      else if c > lastPage s - middleIndex s then lastPage s - int (windowLen s) + 1
      else c - middleIndex s)"

text \<open>
  \<^verbatim>\<open>pages[Math.floor(pages.length / 2)]\<close>, read while the array holds numbers only;
  \<open>None\<close> is \<^verbatim>\<open>undefined\<close> (the empty array), on which every comparison below is false.
\<close>

definition middlePageOf :: "int list \<Rightarrow> int option" where
  "middlePageOf base =
     (if length base div 2 < length base then Some (base ! (length base div 2)) else None)"

definition frontEllipsis :: "pagination \<Rightarrow> int option \<Rightarrow> jsval list \<Rightarrow> jsval list" where
  "frontEllipsis s middlePage pages =
     (if (case middlePage of None \<Rightarrow> False | Some m \<Rightarrow> m - middleIndex s > 0) then
        if ellipsisCountsAsPage s then
          arr_set pages (if enableFirstLast s then 1 else 0) ellipsis
        else
          let ellipsisValue =
                (if showEllipsisIfOnlyOnePage s \<and>
                    (case middlePage of None \<Rightarrow> False | Some m \<Rightarrow> m - middleIndex s = 1)
                 then minus_one (arr_get pages 1)
                 else ellipsis)
          in if enableFirstLast s then [arr_get pages 0, ellipsisValue] @ drop 1 pages
             else ellipsisValue # pages
      else pages)"

definition backEllipsis :: "pagination \<Rightarrow> int option \<Rightarrow> jsval list \<Rightarrow> jsval list" where
  "backEllipsis s middlePage pages =
     (if (case middlePage of None \<Rightarrow> False | Some m \<Rightarrow> m + middleIndex s < lastPage s) then
        if ellipsisCountsAsPage s then
          arr_set pages (int (length pages) - (if enableFirstLast s then 2 else 1)) ellipsis
        else
          let ellipsisValue =
                (if showEllipsisIfOnlyOnePage s \<and>
                    (case middlePage of None \<Rightarrow> False
                     | Some m \<Rightarrow> m + middleIndex s = lastPage s - 1)
                 then plus_one (arr_get pages (int (length pages) - 2))
                 else ellipsis)
          in if enableFirstLast s then
               take (length pages - 1) pages
                 @ [ellipsisValue, arr_get pages (int (length pages) - 1)]
             else pages @ [ellipsisValue]
      else pages)"

definition firstLast :: "pagination \<Rightarrow> jsval list \<Rightarrow> jsval list" where
  "firstLast s pages =
     (let pages1 = (if arr_get pages 0 \<noteq> Num 0 then arr_set pages 0 (Num 0) else pages)
      in if arr_get pages1 (int (length pages1) - 1) \<noteq> Num (lastPage s)
         then arr_set pages1 (int (length pages1) - 1) (Num (lastPage s))
         else pages1)"

text \<open>The block under \<^verbatim>\<open>// Ellipsis Feature\<close>, run on the numbers of the first block.\<close>

definition ellipsisFeature :: "pagination \<Rightarrow> int list \<Rightarrow> jsval list" where
  "ellipsisFeature s base =
     (let pages = map Num base
      in if enableEllipsis s then
           let middlePage = middlePageOf base
           in backEllipsis s middlePage (frontEllipsis s middlePage pages)
         else pages)"

definition calculatePages :: "pagination \<Rightarrow> int \<Rightarrow> jsval list" where
  "calculatePages s pageIndex =
     (let currentPage = pageIndex;
          pages = ellipsisFeature s (basePages s currentPage)
      in if enableFirstLast s then firstLast s pages else pages)"

section \<open>\<^verbatim>\<open>calculatePageClick\<close>\<close>

text \<open>
  \<^verbatim>\<open>Math.floor(x / 2)\<close> is \<open>x div 2\<close> on integers, \<^verbatim>\<open>Math.ceil(x / 2)\<close> is
  \<open>- ((- x) div 2)\<close>. The function falls off its end, returning \<^verbatim>\<open>undefined\<close>, when the
  clicked value is no number and ellipsis clicks are disabled.
\<close>

definition calculatePageClick :: "pagination \<Rightarrow> int \<Rightarrow> jsval \<Rightarrow> int \<Rightarrow> jsval" where
  "calculatePageClick s currentPage clickedPage buttonIndex =
     (if typeof_number clickedPage then clickedPage
      else if enableEllipsisClick s then
        if buttonIndex < middleIndex s then Num (currentPage div 2)
        else Num (- ((- (currentPage + lastPage s)) div 2))
      else Undefined)"

text \<open>The paginator built with every option left at its default.\<close>

definition defaults :: "int \<Rightarrow> pagination" where
  "defaults n =
     usePagination \<lparr> opt_totalPages = n, opt_maxPagesShown = None,
                     opt_ellipsisOptions = None \<rparr>"

text \<open>
  Two more paginators used as concrete inputs below: one that shows a single page, one
  with ellipsis clicks switched off; every other option is left at its default.
\<close>

definition oneShown :: "int \<Rightarrow> pagination" where
  "oneShown n =
     usePagination \<lparr> opt_totalPages = n, opt_maxPagesShown = Some 1,
                     opt_ellipsisOptions = None \<rparr>"

definition noEllipsisClick :: "int \<Rightarrow> pagination" where
  "noEllipsisClick n =
     usePagination \<lparr> opt_totalPages = n, opt_maxPagesShown = None,
       opt_ellipsisOptions = Some \<lparr> opt_enableEllipsis = None,
         opt_ellipsisCountsAsPage = None, opt_showEllipsisIfOnlyOnePage = None,
         opt_enableEllipsisClick = Some False, opt_enableFirstLast = None \<rparr> \<rparr>"

text \<open>
  The paginator that shows a single page and does not count the ellipsis as a page, so
  that the ellipsis is inserted.
\<close>

definition oneShownInserting :: "int \<Rightarrow> pagination" where
  "oneShownInserting n =
     usePagination \<lparr> opt_totalPages = n, opt_maxPagesShown = Some 1,
       opt_ellipsisOptions = Some \<lparr> opt_enableEllipsis = None,
         opt_ellipsisCountsAsPage = Some False, opt_showEllipsisIfOnlyOnePage = None,
         opt_enableEllipsisClick = None, opt_enableFirstLast = None \<rparr> \<rparr>"

section \<open>The state invariant\<close>

lemma reachable_usePagination: "reachable (usePagination paginationOptions)"
  by (simp add: reachable_def usePagination_def Let_def)

lemma reachable_updateTotalPages: "reachable s \<Longrightarrow> reachable (updateTotalPages n s)"
  by (simp add: reachable_def updateTotalPages_def Let_def)

text \<open>
  The invariant says no more than that: every state that satisfies it is built by
  \<^verbatim>\<open>usePagination\<close> from some options.
\<close>

lemma reachable_is_constructed:
  assumes "reachable s"
  shows "s = usePagination
           \<lparr> opt_totalPages = totalPages s, opt_maxPagesShown = Some (maxPagesShown s),
             opt_ellipsisOptions = Some
               \<lparr> opt_enableEllipsis = Some (enableEllipsis s),
                 opt_ellipsisCountsAsPage = Some (ellipsisCountsAsPage s),
                 opt_showEllipsisIfOnlyOnePage = Some (showEllipsisIfOnlyOnePage s),
                 opt_enableEllipsisClick = Some (enableEllipsisClick s),
                 opt_enableFirstLast = Some (enableFirstLast s) \<rparr> \<rparr>"
  using assms
  by (simp add: reachable_def usePagination_def ellipsisOption_def Let_def max_def)

lemma defaults_state:
  "defaults n = \<lparr> totalPages = max n 1, lastPage = max n 1 - 1, maxPagesShown = 7,
     middleIndex = 3, enableEllipsis = True, ellipsisCountsAsPage = True,
     showEllipsisIfOnlyOnePage = True, enableEllipsisClick = True, enableFirstLast = True \<rparr>"
  by (simp add: defaults_def usePagination_def ellipsisOption_def Let_def)

lemma reachable_defaults: "reachable (defaults n)"
  unfolding defaults_def by (rule reachable_usePagination)

lemma oneShown_state:
  "oneShown n = \<lparr> totalPages = max n 1, lastPage = max n 1 - 1, maxPagesShown = 1,
     middleIndex = 0, enableEllipsis = True, ellipsisCountsAsPage = True,
     showEllipsisIfOnlyOnePage = True, enableEllipsisClick = True, enableFirstLast = True \<rparr>"
  by (simp add: oneShown_def usePagination_def ellipsisOption_def Let_def)

lemma reachable_oneShown: "reachable (oneShown n)"
  unfolding oneShown_def by (rule reachable_usePagination)

lemma noEllipsisClick_state:
  "noEllipsisClick n = \<lparr> totalPages = max n 1, lastPage = max n 1 - 1, maxPagesShown = 7,
     middleIndex = 3, enableEllipsis = True, ellipsisCountsAsPage = True,
     showEllipsisIfOnlyOnePage = True, enableEllipsisClick = False, enableFirstLast = True \<rparr>"
  by (simp add: noEllipsisClick_def usePagination_def ellipsisOption_def Let_def)

lemma oneShownInserting_state:
  "oneShownInserting n = \<lparr> totalPages = max n 1, lastPage = max n 1 - 1, maxPagesShown = 1,
     middleIndex = 0, enableEllipsis = True, ellipsisCountsAsPage = False,
     showEllipsisIfOnlyOnePage = True, enableEllipsisClick = True, enableFirstLast = True \<rparr>"
  by (simp add: oneShownInserting_def usePagination_def ellipsisOption_def Let_def)

lemma reachable_oneShownInserting: "reachable (oneShownInserting n)"
  unfolding oneShownInserting_def by (rule reachable_usePagination)

lemma upt_seven: "[0..<7] = [0, 1, 2, 3, 4, 5, 6]"
  by code_simp

section \<open>The array operations\<close>

lemma length_arr_set:
  "length (arr_set pages i v) = (if i < int (length pages) then length pages else nat i + 1)"
  by (auto simp: arr_set_def)

lemma arr_get_arr_set_same: "0 \<le> i \<Longrightarrow> arr_get (arr_set pages i v) i = v"
  by (auto simp: arr_set_def arr_get_def nth_append)

lemma arr_get_arr_set_other:
  "0 \<le> j \<Longrightarrow> j < int (length pages) \<Longrightarrow> i \<noteq> j \<Longrightarrow>
   arr_get (arr_set pages i v) j = arr_get pages j"
  by (auto simp: arr_set_def arr_get_def nth_append)

section \<open>The window before ellipsis and pinning\<close>

text \<open>Sorting the descending run of the second branch gives the ascending run.\<close>

lemma ascending_is_rev:
  "map (\<lambda>i. lp - int n + 1 + int i) [0..<n] = rev (map (\<lambda>i. lp - int i) [0..<n])"
  by (rule nth_equalityI) (auto simp: rev_nth)

lemma sort_descending:
  "sort (map (\<lambda>i. lp - int i) [0..<n]) = map (\<lambda>i. lp - int n + 1 + int i) [0..<n]"
proof (rule sorted_distinct_set_unique)
  show "sorted (sort (map (\<lambda>i. lp - int i) [0..<n]))"
    by simp
  show "distinct (sort (map (\<lambda>i. lp - int i) [0..<n]))"
    by (simp add: distinct_map inj_on_def)
  show "sorted (map (\<lambda>i. lp - int n + 1 + int i) [0..<n])"
    by (simp add: sorted_map sorted_wrt_iff_nth_less)
  show "distinct (map (\<lambda>i. lp - int n + 1 + int i) [0..<n])"
    by (simp add: distinct_map inj_on_def)
  show "set (sort (map (\<lambda>i. lp - int i) [0..<n])) =
        set (map (\<lambda>i. lp - int n + 1 + int i) [0..<n])"
    unfolding ascending_is_rev by simp
qed

lemma basePages_window:
  "basePages s c = map (\<lambda>i. windowStart s c + int i) [0..<windowLen s]"
  by (simp add: basePages_def sort_descending Let_def)

lemma length_basePages: "length (basePages s c) = windowLen s"
  by (simp add: basePages_window)

lemma set_window: "set (map (\<lambda>i. a + int i) [0..<n]) = {a..<a + int n}"
proof -
  have "x \<in> (\<lambda>i. a + int i) ` {0..<n}" if "a \<le> x" "x < a + int n" for x
    using that by (intro image_eqI[where x = "nat (x - a)"]) auto
  thus ?thesis by auto
qed

lemma window_in_range:
  assumes "reachable s" "1 \<le> maxPagesShown s" "0 \<le> c" "c \<le> lastPage s"
  shows "0 \<le> windowStart s c"
    and "windowStart s c + int (windowLen s) \<le> lastPage s + 1"
    and "windowStart s c \<le> c"
    and "c < windowStart s c + int (windowLen s)"
  using assms unfolding reachable_def by (auto simp: min_def)

lemma window_centered:
  assumes "reachable s" "1 \<le> maxPagesShown s"
    "middleIndex s \<le> c" "c \<le> lastPage s - middleIndex s"
  shows "basePages s c ! nat (middleIndex s) = c"
proof -
  have "nat (middleIndex s) < windowLen s" "0 \<le> middleIndex s"
    using assms unfolding reachable_def by (auto simp: min_def)
  thus ?thesis using assms(3,4) by (simp add: basePages_window)
qed

lemma middlePageOf_window:
  "0 < n \<Longrightarrow> middlePageOf (map (\<lambda>i. a + int i) [0..<n]) = Some (a + int (n div 2))"
  by (simp add: middlePageOf_def)

section \<open>Few pages\<close>

lemma basePages_small:
  assumes "reachable s" "totalPages s \<le> maxPagesShown s"
  shows "basePages s c = map int [0..<nat (totalPages s)]"
proof -
  have "windowStart s c = 0"
    using assms unfolding reachable_def by auto
  thus ?thesis using assms(2) by (simp add: basePages_window min_def)
qed

lemma frontEllipsis_idle:
  "\<not> (case mp of None \<Rightarrow> False | Some m \<Rightarrow> m - middleIndex s > 0) \<Longrightarrow>
   frontEllipsis s mp pages = pages"
  by (simp add: frontEllipsis_def)

lemma backEllipsis_idle:
  "\<not> (case mp of None \<Rightarrow> False | Some m \<Rightarrow> m + middleIndex s < lastPage s) \<Longrightarrow>
   backEllipsis s mp pages = pages"
  by (simp add: backEllipsis_def)

lemma firstLast_idle:
  "pages \<noteq> [] \<Longrightarrow> pages ! 0 = Num 0 \<Longrightarrow> pages ! (length pages - 1) = Num (lastPage s) \<Longrightarrow>
   firstLast s pages = pages"
  by (simp add: firstLast_def arr_get_def Let_def nat_diff_distrib')

lemma calculatePages_small:
  assumes "reachable s" "totalPages s \<le> maxPagesShown s"
  shows "calculatePages s c = map (\<lambda>i. Num (int i)) [0..<nat (totalPages s)]"
proof -
  let ?n = "nat (totalPages s)"
  have n: "0 < ?n" "int ?n = totalPages s"
    using assms(1) by (auto simp: reachable_def)
  have base: "basePages s c = map (\<lambda>i. 0 + int i) [0..<?n]"
    using basePages_small[OF assms] by simp
  have mp: "middlePageOf (basePages s c) = Some (int (?n div 2))"
    unfolding base using middlePageOf_window[OF n(1), of 0] by simp
  have mid: "middleIndex s = maxPagesShown s div 2" "lastPage s = totalPages s - 1"
    using assms(1) by (auto simp: reachable_def)
  have half: "int (?n div 2) = totalPages s div 2"
    using n(2) by (metis of_nat_numeral zdiv_int)
  have le: "totalPages s div 2 \<le> maxPagesShown s div 2"
    using assms(2) by (rule zdiv_mono1) simp
  have no_front: "frontEllipsis s (Some (int (?n div 2))) pages = pages" for pages
    by (rule frontEllipsis_idle) (use half le mid in simp)
  have no_back: "backEllipsis s (Some (int (?n div 2))) pages = pages" for pages
    by (rule backEllipsis_idle) (use half le mid in \<open>simp; linarith\<close>)
  have pin: "firstLast s (map Num (basePages s c)) = map Num (basePages s c)"
    by (rule firstLast_idle) (use n mid in \<open>auto simp: base\<close>)
  show ?thesis
    using pin by (simp add: calculatePages_def ellipsisFeature_def Let_def mp no_front no_back)
      (simp add: base)
qed

section \<open>Lengths and the pinned slots\<close>

lemma length_frontEllipsis_ge: "length pages \<le> length (frontEllipsis s mp pages)"
  by (auto simp: frontEllipsis_def Let_def length_arr_set)

lemma length_backEllipsis_ge: "length pages \<le> length (backEllipsis s mp pages)"
  by (auto simp: backEllipsis_def Let_def length_arr_set)

lemma length_frontEllipsis_le:
  "pages \<noteq> [] \<Longrightarrow> length (frontEllipsis s mp pages) \<le> length pages + 1"
  by (cases pages) (auto simp: frontEllipsis_def Let_def length_arr_set)

lemma length_backEllipsis_le:
  "pages \<noteq> [] \<Longrightarrow> length (backEllipsis s mp pages) \<le> length pages + 1"
  by (auto simp: backEllipsis_def Let_def length_arr_set)

lemma length_frontEllipsis_counts:
  "ellipsisCountsAsPage s \<Longrightarrow> 2 \<le> length pages \<or> \<not> enableFirstLast s \<and> pages \<noteq> [] \<Longrightarrow>
   length (frontEllipsis s mp pages) = length pages"
  by (auto simp: frontEllipsis_def length_arr_set)

lemma length_backEllipsis_counts:
  "ellipsisCountsAsPage s \<Longrightarrow> length (backEllipsis s mp pages) = length pages"
  by (auto simp: backEllipsis_def length_arr_set)

lemma length_firstLast: "pages \<noteq> [] \<Longrightarrow> length (firstLast s pages) = length pages"
  by (auto simp: firstLast_def Let_def length_arr_set)

lemma firstLast_last:
  assumes "pages \<noteq> []"
  shows "arr_get (firstLast s pages) (int (length (firstLast s pages)) - 1) = Num (lastPage s)"
proof -
  have "0 \<le> int (length pages) - 1"
    using assms by (cases pages) auto
  thus ?thesis using assms
    by (auto simp: firstLast_def Let_def length_arr_set arr_get_arr_set_same)
qed

lemma firstLast_first:
  assumes "2 \<le> length pages \<or> length pages = 1 \<and> lastPage s = 0"
  shows "arr_get (firstLast s pages) 0 = Num 0"
proof -
  have ne: "0 < int (length pages)"
    using assms by auto
  have set0: "arr_get (arr_set pages 0 (Num 0)) 0 = Num 0"
    by (simp add: arr_get_arr_set_same)
  show ?thesis
  proof (cases "2 \<le> length pages")
    case True
    hence "arr_get (arr_set xs (int (length pages) - 1) v) 0 = arr_get xs 0"
      if "length xs = length pages" for xs v
      using that by (intro arr_get_arr_set_other) auto
    thus ?thesis using ne set0
      by (auto simp: firstLast_def Let_def length_arr_set)
  next
    case False
    hence "length pages = 1" "lastPage s = 0"
      using assms by simp_all
    thus ?thesis using set0
      by (auto simp: firstLast_def Let_def length_arr_set arr_get_arr_set_same)
  qed
qed

section \<open>The whole of \<^verbatim>\<open>calculatePages\<close>\<close>

lemma length_ellipsisFeature_ge: "length base \<le> length (ellipsisFeature s base)"
  using length_backEllipsis_ge[of "frontEllipsis s (middlePageOf base) (map Num base)" s
      "middlePageOf base"]
    length_frontEllipsis_ge[of "map Num base" s "middlePageOf base"]
  by (simp add: ellipsisFeature_def Let_def)

lemma length_ellipsisFeature_le:
  assumes "base \<noteq> []"
  shows "length (ellipsisFeature s base) \<le> length base + 2"
proof -
  let ?F = "frontEllipsis s (middlePageOf base) (map Num base)"
  have "length ?F \<le> length (map Num base) + 1"
    using assms by (intro length_frontEllipsis_le) simp
  moreover have "?F \<noteq> []"
    using length_frontEllipsis_ge[of "map Num base" s "middlePageOf base"] assms by auto
  hence "length (backEllipsis s (middlePageOf base) ?F) \<le> length ?F + 1"
    by (rule length_backEllipsis_le)
  ultimately show ?thesis
    by (simp add: ellipsisFeature_def Let_def)
qed

lemma length_ellipsisFeature_off:
  "\<not> enableEllipsis s \<Longrightarrow> length (ellipsisFeature s base) = length base"
  by (simp add: ellipsisFeature_def)

lemma length_ellipsisFeature_counts:
  assumes "ellipsisCountsAsPage s" "2 \<le> length base \<or> \<not> enableFirstLast s \<and> base \<noteq> []"
  shows "length (ellipsisFeature s base) = length base"
proof -
  have "length (frontEllipsis s (middlePageOf base) (map Num base)) = length (map Num base)"
    using assms by (intro length_frontEllipsis_counts) auto
  thus ?thesis
    using assms(1) by (simp add: ellipsisFeature_def Let_def length_backEllipsis_counts)
qed

lemma windowLen_pos:
  assumes "reachable s" "1 \<le> maxPagesShown s"
  shows "1 \<le> windowLen s" and "int (windowLen s) = min (maxPagesShown s) (totalPages s)"
  using assms by (auto simp: reachable_def min_def)

lemma marked_nonempty:
  assumes "reachable s" "1 \<le> maxPagesShown s"
  shows "1 \<le> length (ellipsisFeature s (basePages s c))"
  using length_ellipsisFeature_ge[of "basePages s c" s] windowLen_pos(1)[OF assms]
  by (simp add: length_basePages)

lemma length_calculatePages:
  assumes "reachable s" "1 \<le> maxPagesShown s"
  shows "length (calculatePages s c) = length (ellipsisFeature s (basePages s c))"
proof -
  have "ellipsisFeature s (basePages s c) \<noteq> []"
    using marked_nonempty[OF assms, of c] by auto
  thus ?thesis
    by (simp add: calculatePages_def Let_def length_firstLast)
qed

lemma calculatePages_nonempty:
  assumes "reachable s" "1 \<le> maxPagesShown s"
  shows "1 \<le> length (calculatePages s c)"
  using marked_nonempty[OF assms, of c] by (simp add: length_calculatePages[OF assms])

lemma calculatePages_pinned:
  assumes "reachable s" "1 \<le> maxPagesShown s" "enableFirstLast s"
  shows "arr_get (calculatePages s c) (int (length (calculatePages s c)) - 1) = Num (lastPage s)"
    and "2 \<le> maxPagesShown s \<or> 2 \<le> length (calculatePages s c) \<or> totalPages s = 1 \<Longrightarrow>
         arr_get (calculatePages s c) 0 = Num 0"
proof -
  let ?P = "ellipsisFeature s (basePages s c)"
  have calc: "calculatePages s c = firstLast s ?P"
    using assms(3) by (simp add: calculatePages_def)
  have wl: "windowLen s \<le> length ?P"
    using length_ellipsisFeature_ge[of "basePages s c" s] by (simp add: length_basePages)
  have one: "1 \<le> length ?P"
    using assms(1,2) by (rule marked_nonempty)
  hence ne: "?P \<noteq> []"
    by auto
  show "arr_get (calculatePages s c) (int (length (calculatePages s c)) - 1) = Num (lastPage s)"
    unfolding calc using ne by (rule firstLast_last)
  assume *: "2 \<le> maxPagesShown s \<or> 2 \<le> length (calculatePages s c) \<or> totalPages s = 1"
  have len: "length (calculatePages s c) = length ?P"
    using assms(1,2) by (rule length_calculatePages)
  have "2 \<le> length ?P \<or> length ?P = 1 \<and> lastPage s = 0"
  proof (cases "totalPages s = 1")
    case True
    hence "lastPage s = 0" using assms(1) by (simp add: reachable_def)
    thus ?thesis using one by linarith
  next
    case False
    hence "2 \<le> totalPages s" using assms(1) by (simp add: reachable_def)
    hence "2 \<le> maxPagesShown s \<Longrightarrow> 2 \<le> windowLen s" by simp
    thus ?thesis using * False wl len by linarith
  qed
  thus "arr_get (calculatePages s c) 0 = Num 0"
    unfolding calc by (rule firstLast_first)
qed

lemma calculatePages_length:
  assumes "reachable s" "1 \<le> maxPagesShown s"
  shows "int (length (calculatePages s c)) \<le> maxPagesShown s + 2"
    and "\<not> enableEllipsis s \<Longrightarrow> int (length (calculatePages s c)) \<le> maxPagesShown s"
    and "ellipsisCountsAsPage s \<Longrightarrow> 2 \<le> maxPagesShown s \<or> \<not> enableFirstLast s \<Longrightarrow>
         int (length (calculatePages s c)) \<le> maxPagesShown s"
proof -
  let ?B = "basePages s c"
  have wl: "1 \<le> windowLen s" "int (windowLen s) = min (maxPagesShown s) (totalPages s)"
    using assms by (rule windowLen_pos)+
  have lB: "length ?B = windowLen s"
    by (rule length_basePages)
  hence neB: "?B \<noteq> []"
    using wl(1) by auto
  have len: "length (calculatePages s c) = length (ellipsisFeature s ?B)"
    using assms by (rule length_calculatePages)
  show "int (length (calculatePages s c)) \<le> maxPagesShown s + 2"
    using length_ellipsisFeature_le[OF neB, of s] len lB wl(2) by linarith
  show "int (length (calculatePages s c)) \<le> maxPagesShown s" if "\<not> enableEllipsis s"
    using length_ellipsisFeature_off[OF that, of ?B] len lB wl(2) by linarith
  show "int (length (calculatePages s c)) \<le> maxPagesShown s"
    if cnt: "ellipsisCountsAsPage s" and big: "2 \<le> maxPagesShown s \<or> \<not> enableFirstLast s"
  proof (cases "totalPages s \<le> maxPagesShown s")
    case True
    hence "length (calculatePages s c) = nat (totalPages s)"
      using assms(1) by (simp add: calculatePages_small)
    thus ?thesis
      using True assms(2) by linarith
  next
    case False
    hence "int (windowLen s) = maxPagesShown s"
      using wl(2) by simp
    hence "2 \<le> length ?B \<or> \<not> enableFirstLast s \<and> ?B \<noteq> []"
      using big lB neB by linarith
    hence "length (ellipsisFeature s ?B) = length ?B"
      using cnt by (intro length_ellipsisFeature_counts)
    thus ?thesis
      using len lB wl(2) by linarith
  qed
qed

text \<open>
  Where the ellipsis is inserted rather than written over a slot, a window over two or
  more pages has two or more slots, also when a single page is shown.
\<close>

lemma insert_mode_two_slots:
  assumes "reachable s" "1 \<le> maxPagesShown s" "enableEllipsis s" "\<not> ellipsisCountsAsPage s"
    "2 \<le> totalPages s" "0 \<le> c" "c \<le> lastPage s"
  shows "2 \<le> length (calculatePages s c)"
proof (cases "2 \<le> maxPagesShown s")
  case True
  hence "2 \<le> windowLen s"
    using assms(5) by simp
  moreover have "windowLen s \<le> length (ellipsisFeature s (basePages s c))"
    using length_ellipsisFeature_ge[of "basePages s c" s] by (simp add: length_basePages)
  ultimately show ?thesis
    using length_calculatePages[OF assms(1,2), of c] by linarith
next
  case False
  hence one: "maxPagesShown s = 1"
    using assms(2) by simp
  hence mid: "middleIndex s = 0" and lp: "1 \<le> lastPage s"
    using assms(1,5) by (simp_all add: reachable_def)
  have base: "basePages s c = [c]"
    using assms(5,6,7) one mid by (simp add: basePages_window)
  have mp: "middlePageOf [c] = Some c"
    by (simp add: middlePageOf_def)
  let ?F = "frontEllipsis s (Some c) [Num c]"
  have "2 \<le> length (backEllipsis s (Some c) ?F)"
  proof (cases "0 < c")
    case True
    hence "length ?F = 2"
      using assms(4) mid by (simp add: frontEllipsis_def Let_def)
    thus ?thesis
      using length_backEllipsis_ge[of ?F s "Some c"] by linarith
  next
    case False
    hence c0: "c = 0"
      using assms(6) by simp
    hence "?F = [Num c]"
      using mid by (simp add: frontEllipsis_def)
    thus ?thesis
      using assms(4) mid lp c0 by (simp add: backEllipsis_def Let_def)
  qed
  hence "2 \<le> length (ellipsisFeature s (basePages s c))"
    using assms(3) by (simp add: ellipsisFeature_def base mp Let_def)
  thus ?thesis
    using length_calculatePages[OF assms(1,2), of c] by linarith
qed

lemma single_slot_is_last:
  assumes "reachable s" "1 \<le> maxPagesShown s" "enableFirstLast s"
    "length (calculatePages s c) = 1" "2 \<le> totalPages s"
  shows "arr_get (calculatePages s c) 0 \<noteq> Num 0"
proof -
  have "arr_get (calculatePages s c) 0 = Num (lastPage s)"
    using calculatePages_pinned(1)[OF assms(1,2,3), of c] assms(4) by simp
  moreover have "lastPage s \<noteq> 0"
    using assms(1,5) by (simp add: reachable_def)
  ultimately show ?thesis
    by simp
qed

text \<open>Everything a concrete call of \<^verbatim>\<open>calculatePages\<close> unfolds to.\<close>

lemmas calculatePages_unfold =
  calculatePages_def ellipsisFeature_def basePages_def middlePageOf_def frontEllipsis_def
  backEllipsis_def firstLast_def arr_get_def arr_set_def Let_def

section \<open>Claims\<close>

text \<open>
  C1. In a reachable state with \<open>maxPagesShown \<ge> 1\<close> and \<open>currentPage\<close> in
  \<open>[0, lastPage]\<close>, the array built by the first \<^verbatim>\<open>if\<close> chain of \<^verbatim>\<open>calculatePages\<close>,
  before the ellipsis and first/last features touch it, has
  \<open>min maxPagesShown totalPages\<close> elements, which are consecutive ascending page
  numbers: from \<open>0\<close> when \<open>currentPage < middleIndex\<close>, ending at \<open>lastPage\<close> when
  \<open>currentPage > lastPage - middleIndex\<close>, and otherwise with \<open>currentPage\<close> at index
  \<open>middleIndex\<close>, where \<open>middleIndex = maxPagesShown div 2\<close>. Every element lies in
  \<open>[0, lastPage]\<close> and \<open>currentPage\<close> is one of them.
\<close>

theorem base_window_selection:
  assumes "reachable s" "1 \<le> maxPagesShown s" "0 \<le> currentPage" "currentPage \<le> lastPage s"
  shows "middleIndex s = maxPagesShown s div 2 \<and>
     int (length (basePages s currentPage)) = min (maxPagesShown s) (totalPages s) \<and>
     (currentPage < middleIndex s \<longrightarrow>
        basePages s currentPage = map (\<lambda>i. int i) [0..<length (basePages s currentPage)]) \<and>
     (middleIndex s \<le> currentPage \<and> currentPage > lastPage s - middleIndex s \<longrightarrow>
        basePages s currentPage =
          map (\<lambda>i. lastPage s - (int (length (basePages s currentPage)) - 1) + int i)
            [0..<length (basePages s currentPage)]) \<and>
     (middleIndex s \<le> currentPage \<and> currentPage \<le> lastPage s - middleIndex s \<longrightarrow>
        basePages s currentPage =
          map (\<lambda>i. currentPage - middleIndex s + int i) [0..<length (basePages s currentPage)] \<and>
        basePages s currentPage ! nat (middleIndex s) = currentPage) \<and>
     (\<forall>p \<in> set (basePages s currentPage). 0 \<le> p \<and> p \<le> lastPage s) \<and>
     currentPage \<in> set (basePages s currentPage)"
proof -
  note r = window_in_range[OF assms]
  have "middleIndex s = maxPagesShown s div 2"
    using assms(1) by (simp add: reachable_def)
  moreover have "int (length (basePages s currentPage)) = min (maxPagesShown s) (totalPages s)"
    using assms(1,2) by (simp add: length_basePages reachable_def)
  moreover have "currentPage < middleIndex s \<longrightarrow>
        basePages s currentPage = map (\<lambda>i. int i) [0..<length (basePages s currentPage)]"
    by (simp add: length_basePages) (simp add: basePages_window)
  moreover have "middleIndex s \<le> currentPage \<and> currentPage > lastPage s - middleIndex s \<longrightarrow>
        basePages s currentPage =
          map (\<lambda>i. lastPage s - (int (length (basePages s currentPage)) - 1) + int i)
            [0..<length (basePages s currentPage)]"
    by (simp add: length_basePages) (simp add: basePages_window algebra_simps)
  moreover have "middleIndex s \<le> currentPage \<and> currentPage \<le> lastPage s - middleIndex s \<longrightarrow>
        basePages s currentPage =
          map (\<lambda>i. currentPage - middleIndex s + int i) [0..<length (basePages s currentPage)] \<and>
        basePages s currentPage ! nat (middleIndex s) = currentPage"
    using window_centered[OF assms(1,2)]
    by (simp add: length_basePages) (simp add: basePages_window)
  moreover have "\<forall>p \<in> set (basePages s currentPage). 0 \<le> p \<and> p \<le> lastPage s"
    unfolding basePages_window set_window using r(1,2) by auto
  moreover have "currentPage \<in> set (basePages s currentPage)"
    unfolding basePages_window set_window using r(3,4) by auto
  ultimately show ?thesis by blast
qed

theorem base_window_selection_witness:
  "reachable (defaults 20) \<and> 1 \<le> maxPagesShown (defaults 20) \<and>
   lastPage (defaults 20) = 19 \<and> middleIndex (defaults 20) = 3 \<and>
   basePages (defaults 20) 1 = [0, 1, 2, 3, 4, 5, 6] \<and>
   basePages (defaults 20) 18 = [13, 14, 15, 16, 17, 18, 19] \<and>
   basePages (defaults 20) 10 = [7, 8, 9, 10, 11, 12, 13] \<and>
   basePages (defaults 20) 10 ! 3 = 10"
proof -
  have r: "reachable (defaults 20)" "1 \<le> maxPagesShown (defaults 20)"
    by (simp_all add: reachable_defaults) (simp add: defaults_state)
  have f: "lastPage (defaults 20) = 19" "middleIndex (defaults 20) = 3"
    by (simp_all add: defaults_state)
  have l7: "length (basePages (defaults 20) c) = 7" for c
    by (simp add: length_basePages defaults_state)
  have len: "[0..<length (basePages (defaults 20) c)] = [0, 1, 2, 3, 4, 5, 6]" for c
    by (simp add: l7 upt_seven)
  have "basePages (defaults 20) 1 = [0, 1, 2, 3, 4, 5, 6]"
    using base_window_selection[OF r, of 1] unfolding len f by simp
  moreover have "basePages (defaults 20) 18 = [13, 14, 15, 16, 17, 18, 19]"
    using base_window_selection[OF r, of 18] unfolding len f by (simp add: l7)
  moreover have "basePages (defaults 20) 10 = [7, 8, 9, 10, 11, 12, 13] \<and>
      basePages (defaults 20) 10 ! 3 = 10"
    using base_window_selection[OF r, of 10] unfolding len f by simp
  ultimately show ?thesis using r f by simp
qed

text \<open>
  C2. In a reachable state with \<open>totalPages \<le> maxPagesShown\<close>, \<^verbatim>\<open>calculatePages\<close> returns
  exactly the page numbers \<open>0, \<dots>, totalPages - 1\<close> in order, with no ellipsis among them,
  for every integer \<open>currentPage\<close>, in range or not, and whatever the ellipsis options are.
\<close>

theorem few_pages_all_shown:
  assumes "reachable s" "totalPages s \<le> maxPagesShown s"
  shows "calculatePages s currentPage = map (\<lambda>i. Num (int i)) [0..<nat (totalPages s)] \<and>
     int (length (calculatePages s currentPage)) = totalPages s \<and>
     ellipsis \<notin> set (calculatePages s currentPage)"
proof -
  have "calculatePages s currentPage = map (\<lambda>i. Num (int i)) [0..<nat (totalPages s)]"
    using assms by (rule calculatePages_small)
  moreover have "0 \<le> totalPages s"
    using assms(1) by (simp add: reachable_def)
  ultimately show ?thesis
    by (auto simp: ellipsis_def)
qed

theorem few_pages_all_shown_witness:
  "reachable (defaults 5) \<and> totalPages (defaults 5) \<le> maxPagesShown (defaults 5) \<and>
   calculatePages (defaults 5) 2 = [Num 0, Num 1, Num 2, Num 3, Num 4] \<and>
   calculatePages (defaults 5) 100 = [Num 0, Num 1, Num 2, Num 3, Num 4] \<and>
   calculatePages (defaults 5) (- 3) = [Num 0, Num 1, Num 2, Num 3, Num 4]"
proof -
  have h: "reachable (defaults 5)" "totalPages (defaults 5) \<le> maxPagesShown (defaults 5)"
    by (simp_all add: reachable_defaults) (simp add: defaults_state)
  have five: "[0..<nat (totalPages (defaults 5))] = [0, 1, 2, 3, 4]"
    by code_simp
  show ?thesis
    using h few_pages_all_shown[OF h, of 2] few_pages_all_shown[OF h, of 100]
      few_pages_all_shown[OF h, of "- 3"]
    unfolding five by simp
qed

text \<open>
  C3, as stated, fails: with \<open>maxPagesShown = 1\<close>, two pages and \<open>currentPage = 0\<close> the
  result is the single slot \<open>1\<close>. The first/last feature writes \<open>0\<close> to the first slot
  and then \<open>lastPage\<close> to the last one, which is the same slot.
\<close>

theorem first_slot_counterexample:
  "reachable (oneShown 2) \<and> enableFirstLast (oneShown 2) \<and> 1 \<le> maxPagesShown (oneShown 2) \<and>
   (0::int) \<le> 0 \<and> 0 \<le> lastPage (oneShown 2) \<and>
   calculatePages (oneShown 2) 0 = [Num 1] \<and>
   arr_get (calculatePages (oneShown 2) 0) 0 \<noteq> Num 0"
proof -
  have "calculatePages (oneShown 2) 0 = [Num 1]"
    by (simp add: calculatePages_unfold oneShown_state)
  thus ?thesis
    by (simp add: reachable_oneShown) (simp add: oneShown_state arr_get_def)
qed

text \<open>
  C3, amended. In a reachable state with \<open>enableFirstLast\<close>, \<open>maxPagesShown \<ge> 1\<close> and
  \<open>currentPage\<close> in \<open>[0, lastPage]\<close>, the last slot of the result is page \<open>lastPage\<close>, and
  the first slot is page \<open>0\<close> exactly when the result has at least two slots or there is
  a single page. That is so whenever \<open>maxPagesShown \<ge> 2\<close>, and whenever the ellipsis is
  enabled and does not count as a page.
\<close>

theorem first_last_pinned:
  assumes "reachable s" "1 \<le> maxPagesShown s" "enableFirstLast s"
    "0 \<le> currentPage" "currentPage \<le> lastPage s"
  shows "arr_get (calculatePages s currentPage) (int (length (calculatePages s currentPage)) - 1)
       = Num (lastPage s) \<and>
     (arr_get (calculatePages s currentPage) 0 = Num 0 \<longleftrightarrow>
        2 \<le> length (calculatePages s currentPage) \<or> totalPages s = 1) \<and>
     (2 \<le> maxPagesShown s \<or> enableEllipsis s \<and> \<not> ellipsisCountsAsPage s \<longrightarrow>
        arr_get (calculatePages s currentPage) 0 = Num 0)"
proof -
  let ?r = "calculatePages s currentPage"
  note pin = calculatePages_pinned[OF assms(1,2,3), of currentPage]
  have len: "1 \<le> length ?r"
    using assms(1,2) by (rule calculatePages_nonempty)
  have tp: "1 \<le> totalPages s"
    using assms(1) by (simp add: reachable_def)
  have only_if: "2 \<le> length ?r \<or> totalPages s = 1" if "arr_get ?r 0 = Num 0"
  proof (rule ccontr)
    assume "\<not> (2 \<le> length ?r \<or> totalPages s = 1)"
    hence "length ?r = 1" "2 \<le> totalPages s"
      using len tp by linarith+
    thus False
      using single_slot_is_last[OF assms(1,2,3)] that by blast
  qed
  have ins: "arr_get ?r 0 = Num 0" if "enableEllipsis s" "\<not> ellipsisCountsAsPage s"
  proof (cases "totalPages s = 1")
    case True
    thus ?thesis using pin(2) by blast
  next
    case False
    hence "2 \<le> totalPages s"
      using tp by linarith
    hence "2 \<le> length ?r"
      using insert_mode_two_slots[OF assms(1,2) that _ assms(4,5)] by blast
    thus ?thesis using pin(2) by blast
  qed
  show ?thesis
    using pin only_if ins by blast
qed

theorem first_last_pinned_witness:
  "reachable (defaults 20) \<and> 1 \<le> maxPagesShown (defaults 20) \<and> enableFirstLast (defaults 20) \<and>
   (0::int) \<le> 10 \<and> 10 \<le> lastPage (defaults 20) \<and> 2 \<le> maxPagesShown (defaults 20) \<and>
   2 \<le> length (calculatePages (defaults 20) 10) \<and>
   arr_get (calculatePages (defaults 20) 10) 6 = Num 19 \<and>
   arr_get (calculatePages (defaults 20) 10) 0 = Num 0 \<and>
   reachable (oneShownInserting 3) \<and> 1 \<le> maxPagesShown (oneShownInserting 3) \<and>
   enableFirstLast (oneShownInserting 3) \<and> (0::int) \<le> 0 \<and> 0 \<le> lastPage (oneShownInserting 3) \<and>
   enableEllipsis (oneShownInserting 3) \<and> \<not> ellipsisCountsAsPage (oneShownInserting 3) \<and>
   length (calculatePages (oneShownInserting 3) 0) = 2 \<and>
   arr_get (calculatePages (oneShownInserting 3) 0) 1 = Num 2 \<and>
   arr_get (calculatePages (oneShownInserting 3) 0) 0 = Num 0"
proof -
  have h: "reachable (defaults 20)" "1 \<le> maxPagesShown (defaults 20)"
    "enableFirstLast (defaults 20)" "(0::int) \<le> 10" "10 \<le> lastPage (defaults 20)"
    by (simp_all add: reachable_defaults) (simp_all add: defaults_state)
  have len: "length (calculatePages (defaults 20) 10) = 7"
    by (simp add: calculatePages_unfold defaults_state upt_seven)
  have a: "2 \<le> maxPagesShown (defaults 20) \<and>
      2 \<le> length (calculatePages (defaults 20) 10) \<and>
      arr_get (calculatePages (defaults 20) 10) 6 = Num 19 \<and>
      arr_get (calculatePages (defaults 20) 10) 0 = Num 0"
    using first_last_pinned[OF h] unfolding len by (simp add: defaults_state)
  have g: "reachable (oneShownInserting 3)" "1 \<le> maxPagesShown (oneShownInserting 3)"
    "enableFirstLast (oneShownInserting 3)" "(0::int) \<le> 0" "0 \<le> lastPage (oneShownInserting 3)"
    by (simp_all add: reachable_oneShownInserting) (simp_all add: oneShownInserting_state)
  have ins: "enableEllipsis (oneShownInserting 3)" "\<not> ellipsisCountsAsPage (oneShownInserting 3)"
    by (simp_all add: oneShownInserting_state)
  have len2: "length (calculatePages (oneShownInserting 3) 0) = 2"
    by code_simp
  have b: "arr_get (calculatePages (oneShownInserting 3) 0) 1 = Num 2 \<and>
      arr_get (calculatePages (oneShownInserting 3) 0) 0 = Num 0"
    using first_last_pinned[OF g] ins unfolding len2 by (simp add: oneShownInserting_state)
  show ?thesis
    using h a g ins len2 b by simp
qed

text \<open>
  C4: the length of the result is to stay within \<open>maxPagesShown\<close> when
  \<open>ellipsisCountsAsPage\<close> is set. With \<open>maxPagesShown = 1\<close>, three pages, \<open>currentPage = 1\<close>
  and the default options it does not: the front ellipsis is written at index \<open>1\<close> of a
  one-element array, which grows, and the result has two slots.
\<close>

theorem window_length_exceeded:
  "reachable (oneShown 3) \<and> 1 \<le> maxPagesShown (oneShown 3) \<and>
   (0::int) \<le> 1 \<and> 1 \<le> lastPage (oneShown 3) \<and> ellipsisCountsAsPage (oneShown 3) \<and>
   calculatePages (oneShown 3) 1 = [Num 0, Num 2] \<and>
   \<not> int (length (calculatePages (oneShown 3) 1)) \<le> maxPagesShown (oneShown 3)"
proof -
  have "calculatePages (oneShown 3) 1 = [Num 0, Num 2]"
    by (simp add: calculatePages_unfold oneShown_state)
  thus ?thesis
    by (simp add: reachable_oneShown) (simp add: oneShown_state)
qed

text \<open>
  What the code keeps of C4: the length never exceeds \<open>maxPagesShown + 2\<close>, and with
  \<open>ellipsisCountsAsPage\<close> it stays within \<open>maxPagesShown\<close> once \<open>maxPagesShown \<ge> 2\<close>, or
  \<open>enableFirstLast\<close> is off, or \<open>enableEllipsis\<close> is off.
\<close>

lemma window_length_bound:
  assumes "reachable s" "1 \<le> maxPagesShown s" "0 \<le> currentPage" "currentPage \<le> lastPage s"
  shows "int (length (calculatePages s currentPage)) \<le> maxPagesShown s + 2 \<and>
     (ellipsisCountsAsPage s \<and>
        (2 \<le> maxPagesShown s \<or> \<not> enableFirstLast s \<or> \<not> enableEllipsis s) \<longrightarrow>
      int (length (calculatePages s currentPage)) \<le> maxPagesShown s)"
  using calculatePages_length[OF assms(1,2), of currentPage] by blast

lemma window_length_bound_example:
  "reachable (defaults 20) \<and> 1 \<le> maxPagesShown (defaults 20) \<and>
   (0::int) \<le> 10 \<and> 10 \<le> lastPage (defaults 20) \<and>
   ellipsisCountsAsPage (defaults 20) \<and> 2 \<le> maxPagesShown (defaults 20) \<and>
   int (length (calculatePages (defaults 20) 10)) \<le> 7"
proof -
  have h: "reachable (defaults 20)" "1 \<le> maxPagesShown (defaults 20)"
    "(0::int) \<le> 10" "10 \<le> lastPage (defaults 20)"
    by (simp_all add: reachable_defaults) (simp_all add: defaults_state)
  show ?thesis
    using h window_length_bound[OF h] by (simp add: defaults_state)
qed

text \<open>
  C5. With every option at its default (seven pages shown, ellipsis on and counted as a
  page, first and last pinned), twenty pages and \<open>currentPage = 10\<close>, \<^verbatim>\<open>calculatePages\<close>
  returns the seven slots \<open>0, "...", 9, 10, 11, "...", 19\<close>.
\<close>

theorem default_window_example:
  "maxPagesShown (defaults 20) = 7 \<and> enableEllipsis (defaults 20) \<and>
   ellipsisCountsAsPage (defaults 20) \<and> showEllipsisIfOnlyOnePage (defaults 20) \<and>
   enableFirstLast (defaults 20) \<and> totalPages (defaults 20) = 20 \<and>
   calculatePages (defaults 20) 10 =
     [Num 0, ellipsis, Num 9, Num 10, Num 11, ellipsis, Num 19] \<and>
   length (calculatePages (defaults 20) 10) = 7"
proof -
  have "calculatePages (defaults 20) 10 =
     [Num 0, ellipsis, Num 9, Num 10, Num 11, ellipsis, Num 19]"
    by (simp add: calculatePages_unfold defaults_state upt_seven)
  thus ?thesis
    by (simp add: defaults_state)
qed

text \<open>
  C6. \<^verbatim>\<open>calculatePageClick\<close> returns a clicked page number unchanged. On a click on
  anything that is no number, the ellipsis \<^verbatim>\<open>"..."\<close> among them, with
  \<open>enableEllipsisClick\<close> set, it returns \<open>\<lfloor>currentPage / 2\<rfloor>\<close> when
  \<open>buttonIndex < middleIndex\<close> and \<open>\<lceil>(currentPage + lastPage) / 2\<rceil>\<close> otherwise; with
  \<open>middleIndex = 3\<close>, \<open>currentPage = 10\<close> and \<open>buttonIndex = 0\<close> that is page \<open>5\<close>.
\<close>

theorem page_click:
  "calculatePageClick s currentPage (Num p) buttonIndex = Num p \<and>
   \<not> typeof_number ellipsis \<and>
   (enableEllipsisClick s \<and> \<not> typeof_number clicked \<longrightarrow>
      calculatePageClick s currentPage clicked buttonIndex =
        (if buttonIndex < middleIndex s then Num \<lfloor>real_of_int currentPage / 2\<rfloor>
         else Num \<lceil>real_of_int (currentPage + lastPage s) / 2\<rceil>)) \<and>
   (enableEllipsisClick s \<and> middleIndex s = 3 \<longrightarrow>
      calculatePageClick s 10 ellipsis 0 = Num 5)"
proof -
  have fl: "\<lfloor>real_of_int currentPage / 2\<rfloor> = currentPage div 2"
    by (metis floor_divide_of_int_eq of_int_numeral)
  have ce: "\<lceil>real_of_int (currentPage + lastPage s) / 2\<rceil> = - ((- (currentPage + lastPage s)) div 2)"
    by (metis ceiling_divide_eq_div of_int_numeral)
  show ?thesis
    unfolding fl ce by (simp add: calculatePageClick_def ellipsis_def)
qed

theorem page_click_witness:
  "enableEllipsisClick (defaults 20) \<and> \<not> typeof_number ellipsis \<and>
   middleIndex (defaults 20) = 3 \<and>
   calculatePageClick (defaults 20) 10 ellipsis 0 = Num 5 \<and>
   calculatePageClick (defaults 20) 10 ellipsis 5 = Num 15"
proof -
  have h: "enableEllipsisClick (defaults 20)" "middleIndex (defaults 20) = 3"
    "lastPage (defaults 20) = 19"
    by (simp_all add: defaults_state)
  have "\<lceil>real_of_int (10 + 19) / 2\<rceil> = 15"
    by (simp add: ceiling_eq_iff)
  thus ?thesis
    using h page_click[of "defaults 20" 10 0 0 ellipsis]
      page_click[of "defaults 20" 10 0 5 ellipsis]
    by simp
qed

text \<open>
  C7. With \<open>enableEllipsisClick\<close> off, a click on the ellipsis makes
  \<^verbatim>\<open>calculatePageClick\<close> return \<^verbatim>\<open>undefined\<close>, and \<^verbatim>\<open>undefined\<close> is returned in no other
  case: only when the clicked value is no number and ellipsis clicks are off.
\<close>

theorem page_click_undefined:
  "(\<not> enableEllipsisClick s \<longrightarrow>
      calculatePageClick s currentPage ellipsis buttonIndex = Undefined) \<and>
   (calculatePageClick s currentPage clicked buttonIndex = Undefined \<longleftrightarrow>
      \<not> typeof_number clicked \<and> \<not> enableEllipsisClick s)"
  by (cases clicked) (simp_all add: calculatePageClick_def ellipsis_def)

theorem page_click_undefined_witness:
  "\<not> enableEllipsisClick (noEllipsisClick 20) \<and>
   calculatePageClick (noEllipsisClick 20) 10 ellipsis 1 = Undefined \<and>
   calculatePageClick (noEllipsisClick 20) 10 (Num 4) 1 \<noteq> Undefined \<and>
   calculatePageClick (defaults 20) 10 ellipsis 1 \<noteq> Undefined"
proof -
  have h: "\<not> enableEllipsisClick (noEllipsisClick 20)" "enableEllipsisClick (defaults 20)"
    by (simp_all add: noEllipsisClick_state defaults_state)
  show ?thesis
    using h page_click_undefined[of "noEllipsisClick 20" 10 1 ellipsis]
      page_click_undefined[of "noEllipsisClick 20" 10 1 "Num 4"]
      page_click_undefined[of "defaults 20" 10 1 ellipsis]
    by simp
qed

text \<open>
  C8. \<^verbatim>\<open>updateTotalPages\<close> sets \<open>totalPages\<close> to \<open>max newTotal 1\<close> and \<open>lastPage\<close> to
  \<open>totalPages - 1\<close>, for every integer and touching nothing else; after
  \<^verbatim>\<open>updateTotalPages(0)\<close> and after \<^verbatim>\<open>updateTotalPages(-5)\<close> there is one page and
  \<open>lastPage\<close> is \<open>0\<close>. \<^verbatim>\<open>usePagination\<close> clamps the \<open>totalPages\<close> it is given the same way.
\<close>

theorem total_pages_clamped:
  "updateTotalPages newTotal s = s\<lparr> totalPages := max newTotal 1, lastPage := max newTotal 1 - 1 \<rparr> \<and>
   totalPages (updateTotalPages newTotal s) = max newTotal 1 \<and>
   lastPage (updateTotalPages newTotal s) = totalPages (updateTotalPages newTotal s) - 1 \<and>
   totalPages (updateTotalPages 0 s) = 1 \<and> lastPage (updateTotalPages 0 s) = 0 \<and>
   totalPages (updateTotalPages (- 5) s) = 1 \<and> lastPage (updateTotalPages (- 5) s) = 0 \<and>
   totalPages (usePagination paginationOptions) = max (opt_totalPages paginationOptions) 1 \<and>
   lastPage (usePagination paginationOptions) = totalPages (usePagination paginationOptions) - 1"
  by (simp add: updateTotalPages_def usePagination_def Let_def)

text \<open>
  C9. In a reachable state with \<open>maxPagesShown \<ge> 1\<close>, and in the state any
  \<^verbatim>\<open>updateTotalPages\<close> call leaves behind, \<^verbatim>\<open>calculatePages\<close> returns at least one slot
  for every integer \<open>currentPage\<close>, in range or not.
\<close>

theorem window_never_empty:
  assumes "reachable s" "1 \<le> maxPagesShown s"
  shows "1 \<le> length (calculatePages s currentPage) \<and>
     1 \<le> length (calculatePages (updateTotalPages newTotal s) currentPage)"
proof -
  have r: "reachable (updateTotalPages newTotal s)"
    using assms(1) by (rule reachable_updateTotalPages)
  have m: "1 \<le> maxPagesShown (updateTotalPages newTotal s)"
    using assms(2) by (simp add: updateTotalPages_def Let_def)
  show ?thesis
    using calculatePages_nonempty[OF assms, of currentPage]
      calculatePages_nonempty[OF r m, of currentPage]
    by blast
qed

theorem window_never_empty_witness:
  "reachable (defaults 20) \<and> 1 \<le> maxPagesShown (defaults 20) \<and>
   1 \<le> length (calculatePages (defaults 20) 100) \<and>
   1 \<le> length (calculatePages (updateTotalPages (- 5) (defaults 20)) (- 7))"
proof -
  have h: "reachable (defaults 20)" "1 \<le> maxPagesShown (defaults 20)"
    by (simp_all add: reachable_defaults) (simp add: defaults_state)
  show ?thesis
    using h window_never_empty[OF h, of 100 "- 5"] window_never_empty[OF h, of "- 7" "- 5"]
    by simp
qed

text \<open>
  C10. With \<open>enableEllipsisClick\<close> set and \<open>currentPage\<close> in \<open>[0, lastPage]\<close>, a click on
  the ellipsis (on anything that is no number) leads to a page in \<open>[0, lastPage]\<close>, for
  every \<open>buttonIndex\<close>: both \<open>\<lfloor>currentPage / 2\<rfloor>\<close> and \<open>\<lceil>(currentPage + lastPage) / 2\<rceil>\<close>
  are in that range.
\<close>

theorem ellipsis_click_in_range:
  assumes "enableEllipsisClick s" "0 \<le> currentPage" "currentPage \<le> lastPage s"
    "\<not> typeof_number clicked"
  shows "(\<exists>p. calculatePageClick s currentPage clicked buttonIndex = Num p \<and>
            0 \<le> p \<and> p \<le> lastPage s) \<and>
     0 \<le> \<lfloor>real_of_int currentPage / 2\<rfloor> \<and> \<lfloor>real_of_int currentPage / 2\<rfloor> \<le> lastPage s \<and>
     0 \<le> \<lceil>real_of_int (currentPage + lastPage s) / 2\<rceil> \<and>
     \<lceil>real_of_int (currentPage + lastPage s) / 2\<rceil> \<le> lastPage s"
proof -
  have fl: "\<lfloor>real_of_int currentPage / 2\<rfloor> = currentPage div 2"
    by (metis floor_divide_of_int_eq of_int_numeral)
  have ce: "\<lceil>real_of_int (currentPage + lastPage s) / 2\<rceil> = - ((- (currentPage + lastPage s)) div 2)"
    by (metis ceiling_divide_eq_div of_int_numeral)
  have "0 \<le> currentPage div 2" "currentPage div 2 \<le> lastPage s"
    "0 \<le> - ((- (currentPage + lastPage s)) div 2)"
    "- ((- (currentPage + lastPage s)) div 2) \<le> lastPage s"
    using assms(2,3) by linarith+
  thus ?thesis
    unfolding fl ce using assms(1,4) by (simp add: calculatePageClick_def)
qed

theorem ellipsis_click_in_range_witness:
  "enableEllipsisClick (defaults 20) \<and> (0::int) \<le> 10 \<and> 10 \<le> lastPage (defaults 20) \<and>
   \<not> typeof_number ellipsis \<and>
   (\<exists>p. calculatePageClick (defaults 20) 10 ellipsis 5 = Num p \<and> 0 \<le> p \<and> p \<le> 19)"
proof -
  have h: "enableEllipsisClick (defaults 20)" "(0::int) \<le> 10" "10 \<le> lastPage (defaults 20)"
    "\<not> typeof_number ellipsis"
    by (simp_all add: defaults_state ellipsis_def)
  have l: "lastPage (defaults 20) = 19"
    by (simp add: defaults_state)
  show ?thesis
    using h ellipsis_click_in_range[OF h, of 5] unfolding l by blast
qed

end
